theory Spec2Isabelle
  imports Complex_Main "HOL-Library.Word"
begin

unbundle bit_operations_syntax

text \<open>
  A shallow embedding of the core of the blockchain node: Base58 text encoding
  (\<open>crypto/encoding.py\<close>), the script engine (\<open>advanced/script_engine.py\<close>), block
  headers, blocks and their Merkle roots (\<open>core/block.py\<close>), the genesis block
  (\<open>core/genesis.py\<close>), the UTXO set and the chain (\<open>core/blockchain.py\<close>) and signature
  verification (\<open>crypto/signature.py\<close>).

  Python integers are \<open>int\<close> (or \<open>nat\<close> where the code only produces non-negative
  values), byte strings are lists of 8-bit words, and an exception raised by the code is
  a value \<open>Inl err\<close> of a sum type.  Functions of libraries outside the repository
  (\<open>hashlib\<close>, \<open>json\<close>, \<open>base64\<close>, \<open>cryptography\<close>) are parameters of the model.
\<close>

section \<open>The model\<close>

subsection \<open>Python values\<close>

type_synonym byte = "8 word"

datatype py_error = IndexError | ValueError | OverflowError | TypeError

text \<open>\<open>xs[i]\<close> on a Python list: a negative index counts from the end, an index out of
  range raises \<open>IndexError\<close>.\<close>

definition py_nth :: "'a list \<Rightarrow> int \<Rightarrow> py_error + 'a" where
  "py_nth xs i =
     (if 0 \<le> i \<and> i < int (length xs) then Inr (xs ! nat i)
      else if i < 0 \<and> - int (length xs) \<le> i then Inr (xs ! nat (int (length xs) + i))
      else Inl IndexError)"

text \<open>\<open>xs[:n]\<close>: a negative bound leaves out the last \<open>-n\<close> elements.\<close>

definition py_take :: "int \<Rightarrow> 'a list \<Rightarrow> 'a list" where
  "py_take n xs = (if 0 \<le> n then take (nat n) xs else take (length xs - nat (- n)) xs)"

definition BASE58_ALPHABET :: string where
  "BASE58_ALPHABET = ''123456789ABCDEFGHJKLMNPQRSTUVWXYZabcdefghijkmnopqrstuvwxyz''"

fun count_leading :: "'a \<Rightarrow> 'a list \<Rightarrow> nat" where
  "count_leading z [] = 0"
| "count_leading z (x # xs) = (if x = z then Suc (count_leading z xs) else 0)"

definition from_bytes_big :: "byte list \<Rightarrow> nat" where
  "from_bytes_big data = foldl (\<lambda>acc b. acc * 256 + unat b) 0 data"

function encode_loop :: "nat \<Rightarrow> string \<Rightarrow> string" where
  "encode_loop num encoded =
     (if num > 0
      then encode_loop (num div 58) (BASE58_ALPHABET ! (num mod 58) # encoded)
      else encoded)"
  by pat_completeness auto
termination
  by (relation "measure fst") auto

definition base58_encode :: "byte list \<Rightarrow> string" where
  "base58_encode data =
     (if data = [] then []
      else let leading_zeros = count_leading 0 data;
               num = from_bytes_big data;
               encoded = encode_loop num []
           in replicate leading_zeros (BASE58_ALPHABET ! 0) @ encoded)"

fun str_index :: "'a list \<Rightarrow> 'a \<Rightarrow> nat option" where
  "str_index [] c = None"
| "str_index (x # xs) c = (if x = c then Some 0 else map_option Suc (str_index xs c))"

fun decode_loop :: "string \<Rightarrow> nat \<Rightarrow> py_error + nat" where
  "decode_loop [] num = Inr num"
| "decode_loop (c # cs) num =
     (case str_index BASE58_ALPHABET c of
        None \<Rightarrow> Inl ValueError
      | Some i \<Rightarrow> decode_loop cs (num * 58 + i))"

function bit_length :: "nat \<Rightarrow> nat" where
  "bit_length n = (if n = 0 then 0 else Suc (bit_length (n div 2)))"
  by pat_completeness auto
termination
  by (relation "measure id") auto

fun big_endian_digits :: "nat \<Rightarrow> nat \<Rightarrow> byte list" where
  "big_endian_digits num 0 = []"
| "big_endian_digits num (Suc len) = big_endian_digits (num div 256) len @ [of_nat (num mod 256)]"

definition to_bytes_big :: "nat \<Rightarrow> nat \<Rightarrow> py_error + byte list" where
  "to_bytes_big num len =
     (if num \<ge> 256 ^ len then Inl OverflowError else Inr (big_endian_digits num len))"

definition base58_decode :: "string \<Rightarrow> py_error + byte list" where
  "base58_decode encoded =
     (if encoded = [] then Inr []
      else let leading_zeros = count_leading (BASE58_ALPHABET ! 0) encoded in
        (case decode_loop encoded 0 of
           Inl e \<Rightarrow> Inl e
         | Inr num \<Rightarrow>
             (case to_bytes_big num ((bit_length num + 7) div 8) of
                Inl e \<Rightarrow> Inl e
              | Inr decoded \<Rightarrow> Inr (replicate leading_zeros 0 @ decoded))))"

subsection \<open>Byte strings and hexadecimal text\<close>

text \<open>
  Python \<open>str\<close> values are modelled as \<open>string\<close>, the list of their UTF-8 bytes, so
  \<open>s.encode('utf-8')\<close> is the byte-wise copy \<open>encode\<close>.  \<open>bytes.hex()\<close> and
  \<open>hashlib\<close>'s \<open>hexdigest()\<close> print two lower-case digits per byte.
\<close>

definition encode :: "string \<Rightarrow> byte list" where
  "encode s = map (\<lambda>c. of_nat (of_char c)) s"

definition hex_digit :: "nat \<Rightarrow> char" where
  "hex_digit n = ''0123456789abcdef'' ! n"

definition hex_byte :: "byte \<Rightarrow> string" where
  "hex_byte b = [hex_digit (unat b div 16), hex_digit (unat b mod 16)]"

definition hex :: "byte list \<Rightarrow> string" where
  "hex bs = concat (map hex_byte bs)"

subsection \<open>advanced/script\_engine.py\<close>

text \<open>
  The stack holds Python values: the strings that are pushed and the integer \<open>1\<close> that
  \<open>OP_CHECKSIG\<close> pushes.  The Python list is kept in its own order, the top of the stack
  being the last element.  \<open>hashlib.sha256\<close> is a parameter of the model; applied to an
  integer it raises \<open>TypeError\<close>, which \<open>execute\<close> does not catch.
\<close>

datatype stack_item = IntItem int | StrItem string

record ScriptEngine =
  stack :: "stack_item list"
  alt_stack :: "stack_item list"

definition is_space :: "char \<Rightarrow> bool" where
  "is_space c = (of_char c \<in> {9, 10, 11, 12, 13, 28, 29, 30, 31, 32 :: nat})"

fun split_ws :: "string \<Rightarrow> string \<Rightarrow> string list" where
  "split_ws [] cur = (if cur = [] then [] else [cur])"
| "split_ws (c # cs) cur =
     (if is_space c
      then (if cur = [] then split_ws cs [] else cur # split_ws cs [])
      else split_ws cs (cur @ [c]))"

definition split :: "string \<Rightarrow> string list" where
  "split s = split_ws s []"

definition startswith :: "string \<Rightarrow> string \<Rightarrow> bool" where
  "startswith s p = (take (length p) s = p)"

definition execute_operation ::
  "(byte list \<Rightarrow> byte list) \<Rightarrow> ScriptEngine \<Rightarrow> string \<Rightarrow> py_error + (bool \<times> ScriptEngine)" where
  "execute_operation sha256_digest e op =
     (if op = ''OP_DUP'' then
        (if length (stack e) = 0 then Inr (False, e)
         else Inr (True, e\<lparr>stack := stack e @ [last (stack e)]\<rparr>))
      else if op = ''OP_HASH160'' then
        (if length (stack e) = 0 then Inr (False, e)
         else (case last (stack e) of
                 IntItem n \<Rightarrow> Inl TypeError
               | StrItem s \<Rightarrow>
                   Inr (True, e\<lparr>stack := butlast (stack e)
                                    @ [StrItem (hex (take 20 (sha256_digest (encode s))))]\<rparr>)))
      else if op = ''OP_EQUALVERIFY'' then
        (if length (stack e) < 2 then Inr (False, e)
         else let a = last (stack e);
                  b = last (butlast (stack e));
                  e' = e\<lparr>stack := butlast (butlast (stack e))\<rparr>
              in if a \<noteq> b then Inr (False, e') else Inr (True, e'))
      else if op = ''OP_CHECKSIG'' then
        (if length (stack e) < 2 then Inr (False, e)
         else Inr (True, e\<lparr>stack := butlast (butlast (stack e)) @ [IntItem 1]\<rparr>))
      else if op = ''OP_GENESIS'' then
        Inr (True, e\<lparr>stack := stack e @ [StrItem ''GENESIS'']\<rparr>)
      else if op = ''OP_RETURN'' then
        (if length (stack e) = 0 then Inr (False, e)
         else Inr (True, e\<lparr>stack := butlast (stack e)\<rparr>))
      else if startswith op ''OP_'' then Inr (False, e)
      else Inr (True, e\<lparr>stack := stack e @ [StrItem op]\<rparr>))"

fun execute_operations ::
  "(byte list \<Rightarrow> byte list) \<Rightarrow> ScriptEngine \<Rightarrow> string list \<Rightarrow> py_error + (bool \<times> ScriptEngine)" where
  "execute_operations sha256_digest e [] = Inr (True, e)"
| "execute_operations sha256_digest e (op # ops) =
     (case execute_operation sha256_digest e op of
        Inl err \<Rightarrow> Inl err
      | Inr (ok, e') \<Rightarrow> if \<not> ok then Inr (False, e') else execute_operations sha256_digest e' ops)"

definition execute ::
  "(byte list \<Rightarrow> byte list) \<Rightarrow> ScriptEngine \<Rightarrow> string \<Rightarrow> py_error + (bool \<times> ScriptEngine)" where
  "execute sha256_digest e script =
     (let e0 = e\<lparr>stack := [], alt_stack := []\<rparr>;
          operations = split script
      in case execute_operations sha256_digest e0 operations of
           Inl err \<Rightarrow> Inl err
         | Inr (ok, e') \<Rightarrow>
             if \<not> ok then Inr (False, e')
             else if length (stack e') = 0 then Inr (False, e')
             else (case last (stack e') of
                     IntItem n \<Rightarrow> Inr (n \<noteq> 0, e')
                   | StrItem s \<Rightarrow> Inr (length s > 0, e')))"

subsection \<open>Transactions\<close>

text \<open>
  A transaction is a Python dict.  The code reads it with \<open>.get(key, default)\<close>, so a field
  of the record holds the default when the key is absent (\<open>''\<close> for \<open>tx_id\<close>, \<open>-1\<close> for
  \<open>prev_output_index\<close>, \<open>0\<close> for \<open>amount\<close>, \<open>False\<close> for the flags); \<open>inputs\<close> and
  \<open>outputs\<close> are options because \<open>_validate_transaction\<close> tests whether the keys are
  present.  Amounts and timestamps are Python floats; the model computes with them in
  exact rational arithmetic.
\<close>

record tx_input =
  prev_tx_id :: string
  prev_output_index :: int

record tx_output =
  address :: string
  amount :: rat
  script_pubkey :: string

record transaction =
  tx_id :: string
  inputs :: "tx_input list option"
  outputs :: "tx_output list option"
  is_coinbase :: bool
  is_genesis :: bool

subsection \<open>core/block.py: the header\<close>

record BlockHeader =
  h_version :: int
  h_prev_block_hash :: string
  h_merkle_root :: string
  h_timestamp :: rat
  h_difficulty_target :: int
  h_nonce :: int
  h_block_height :: int
  h_extra_nonce :: int
  h_chain_work :: string

text \<open>
  The library functions the code calls: \<open>hashlib.sha256(x).digest()\<close>,
  \<open>hashlib.sha3_256(x).digest()\<close>, \<open>base64.b64encode\<close>,
  \<open>json.dumps(d, sort_keys=True).encode('utf-8')\<close> of a header's dict and of a
  transaction, and the text of a float in an f-string.
\<close>

record ext =
  sha256 :: "byte list \<Rightarrow> byte list"
  sha3_256 :: "byte list \<Rightarrow> byte list"
  b64encode :: "byte list \<Rightarrow> byte list"
  json_header :: "BlockHeader \<Rightarrow> byte list"
  json_tx :: "transaction \<Rightarrow> byte list"
  float_str :: "rat \<Rightarrow> string"

text \<open>\<open>AssemblySimulator\<close> (native/assembly\_simulator.py, and the fallback in block.py).\<close>

definition little_endian_to_int :: "byte list \<Rightarrow> int" where
  "little_endian_to_int data =
     foldl (\<lambda>result (i, b). result OR push_bit (i * 8) (uint b)) 0 (enumerate 0 data)"

definition bit_rotate_left :: "int \<Rightarrow> int \<Rightarrow> int \<Rightarrow> int" where
  "bit_rotate_left val count bits =
     (let mask = push_bit (nat bits) 1 - 1;
          val = val AND mask;
          count = count mod bits
      in (push_bit (nat count) val OR drop_bit (nat (bits - count)) val) AND mask)"

definition int_to_little_endian :: "int \<Rightarrow> nat \<Rightarrow> byte list" where
  "int_to_little_endian val len = map (\<lambda>i. of_int (drop_bit (i * 8) val AND 255)) [0..<len]"

definition BlockHeader_serialize :: "ext \<Rightarrow> BlockHeader \<Rightarrow> byte list" where
  "BlockHeader_serialize E h =
     (let data = json_header E h;
          encoded = b64encode E data
      in encoded @ [0] @ sha256 E data)"

definition BlockHeader_hash :: "ext \<Rightarrow> BlockHeader \<Rightarrow> string" where
  "BlockHeader_hash E h =
     (let serialized = BlockHeader_serialize E h;
          hash1 = sha256 E serialized;
          hash2 = sha3_256 E hash1;
          hash3 = sha256 E (sha256 E hash2);
          hash3_int = little_endian_to_int (take 8 hash3);
          hash3_int = bit_rotate_left hash3_int 7 64;
          hash3_final = int_to_little_endian hash3_int 8 @ drop 8 hash3
      in hex hash3_final)"

subsection \<open>core/block.py: the block\<close>

record Block =
  index :: int
  transactions :: "transaction list"
  previous_hash :: string
  timestamp :: rat
  difficulty :: int
  nonce :: int
  extra_nonce :: int
  merkle_root :: string
  chain_work :: string
  header :: BlockHeader
  hash :: string

definition hash_transaction :: "ext \<Rightarrow> transaction \<Rightarrow> string" where
  "hash_transaction E tx =
     (let hash1 = sha256 E (json_tx E tx);
          hash2 = sha3_256 E hash1
      in hex (sha256 E hash2))"

text \<open>
  One level of the tree: \<open>for i in range(0, len(tx_hashes), 2)\<close> reads \<open>tx_hashes[i]\<close>
  and \<open>tx_hashes[i + 1]\<close>; the second read raises \<open>IndexError\<close> on a list of odd length.
\<close>

fun pair_level :: "ext \<Rightarrow> string list \<Rightarrow> py_error + string list" where
  "pair_level E [] = Inr []"
| "pair_level E [a] = Inl IndexError"
| "pair_level E (a # b # rest) =
     (let combined = a @ b;
          new_hash = hex (sha256 E (sha256 E (encode combined)))
      in case pair_level E rest of
           Inl err \<Rightarrow> Inl err
         | Inr new_level \<Rightarrow> Inr (new_hash # new_level))"

definition duplicate_last :: "string list \<Rightarrow> string list" where
  "duplicate_last tx_hashes =
     (if length tx_hashes mod 2 = 1 then tx_hashes @ [last tx_hashes] else tx_hashes)"

lemma pair_level_length:
  "pair_level E xs = Inr ys \<Longrightarrow> length xs = 2 * length ys"
  by (induction E xs arbitrary: ys rule: pair_level.induct)
     (auto simp: Let_def split: sum.splits)

function merkle_loop :: "ext \<Rightarrow> string list \<Rightarrow> py_error + string list" where
  "merkle_loop E tx_hashes =
     (if length tx_hashes > 1
      then (case pair_level E (duplicate_last tx_hashes) of
              Inl err \<Rightarrow> Inl err
            | Inr new_level \<Rightarrow> merkle_loop E new_level)
      else Inr tx_hashes)"
  by pat_completeness auto
termination
proof (relation "measure (\<lambda>(E, tx_hashes). length tx_hashes)")
  show "wf (measure (\<lambda>(E, tx_hashes). length tx_hashes))" by simp
next
  fix E :: ext and tx_hashes new_level :: "string list"
  assume "1 < length tx_hashes"
    and "pair_level E (duplicate_last tx_hashes) = Inr new_level"
  then have "length (duplicate_last tx_hashes) = 2 * length new_level"
    by (simp add: pair_level_length)
  moreover have "length (duplicate_last tx_hashes) \<le> length tx_hashes + 1"
    by (simp add: duplicate_last_def)
  ultimately have "length new_level < length tx_hashes"
    using \<open>1 < length tx_hashes\<close> by linarith
  then show "((E, new_level), (E, tx_hashes)) \<in> measure (\<lambda>(E, tx_hashes). length tx_hashes)"
    by simp
qed

definition calculate_merkle_root :: "ext \<Rightarrow> transaction list \<Rightarrow> py_error + string" where
  "calculate_merkle_root E txs =
     (if txs = [] then Inr (hex (sha256 E []))
      else (case merkle_loop E (map (hash_transaction E) txs) of
              Inl err \<Rightarrow> Inl err
            | Inr tx_hashes \<Rightarrow>
                Inr (if tx_hashes \<noteq> [] then hd tx_hashes else hex (sha256 E []))))"

text \<open>\<open>hex(n)[2:]\<close> for a non-negative integer, and \<open>str(n)\<close>.\<close>

function int_hex :: "int \<Rightarrow> string" where
  "int_hex n =
     (if n < 16 then [hex_digit (nat n)]
      else int_hex (n div 16) @ [hex_digit (nat (n mod 16))])"
  by pat_completeness auto
termination
  by (relation "measure nat") auto

function nat_str :: "nat \<Rightarrow> string" where
  "nat_str n = (if n < 10 then [hex_digit n] else nat_str (n div 10) @ [hex_digit (n mod 10)])"
  by pat_completeness auto
termination
  by (relation "measure id") auto

text \<open>\<open>2 ** (256 - difficulty)\<close> is a float below 1 when the exponent is negative, and
  \<open>int\<close> truncates it to 0.\<close>

definition calculate_chain_work :: "int \<Rightarrow> string" where
  "calculate_chain_work d = int_hex (if d \<le> 256 then 2 ^ nat (256 - d) else 0)"

text \<open>The constructor \<open>Block(...)\<close>; \<open>now\<close> is the value of \<open>time.time()\<close>.\<close>

definition Block_init ::
  "ext \<Rightarrow> rat \<Rightarrow> int \<Rightarrow> transaction list \<Rightarrow> string \<Rightarrow> int \<Rightarrow> int \<Rightarrow> int \<Rightarrow> py_error + Block" where
  "Block_init E now idx txs prev d n en =
     (case calculate_merkle_root E txs of
        Inl err \<Rightarrow> Inl err
      | Inr computed_root \<Rightarrow>
          (let hdr = \<lparr>h_version = 1, h_prev_block_hash = prev, h_merkle_root = computed_root,
                      h_timestamp = now, h_difficulty_target = d, h_nonce = n,
                      h_block_height = idx, h_extra_nonce = en,
                      h_chain_work = calculate_chain_work d\<rparr>
           in Inr \<lparr>index = idx, transactions = txs, previous_hash = prev, timestamp = now,
                   difficulty = d, nonce = n, extra_nonce = en, merkle_root = computed_root,
                   chain_work = calculate_chain_work d, header = hdr,
                   hash = BlockHeader_hash E hdr\<rparr>))"

definition Block_validate :: "ext \<Rightarrow> rat \<Rightarrow> Block \<Rightarrow> py_error + bool" where
  "Block_validate E now b =
     (if hash b \<noteq> BlockHeader_hash E (header b) then Inr False
      else if py_take (difficulty b) (hash b) \<noteq> replicate (nat (difficulty b)) (CHR ''0'')
        then Inr False
      else (case calculate_merkle_root E (transactions b) of
              Inl err \<Rightarrow> Inl err
            | Inr computed_root \<Rightarrow>
                if merkle_root b \<noteq> computed_root then Inr False
                else if timestamp b > now + 7200 then Inr False
                else if length (transactions b) = 0 \<and> index b \<noteq> 0 then Inr False
                else Inr True))"

subsection \<open>core/genesis.py\<close>

definition genesis_transaction :: transaction where
  "genesis_transaction =
     \<lparr>tx_id = replicate 64 (CHR ''0''),
      inputs = Some [],
      outputs = Some [\<lparr>address = ''genesis_address_00000000000000000000000000000000'',
                       amount = 0, script_pubkey = ''OP_GENESIS''\<rparr>],
      is_coinbase = True, is_genesis = True\<rparr>"

text \<open>\<open>now\<close> and \<open>now'\<close> are the two readings of the clock, in the constructor and after.\<close>

definition create_genesis_block :: "ext \<Rightarrow> rat \<Rightarrow> rat \<Rightarrow> py_error + Block" where
  "create_genesis_block E now now' =
     (case Block_init E now 0 [genesis_transaction] (replicate 64 (CHR ''0'')) 4 0 0 of
        Inl err \<Rightarrow> Inl err
      | Inr genesis_block \<Rightarrow>
          Inr (genesis_block\<lparr>timestamp := now',
                            hash := BlockHeader_hash E (header genesis_block)\<rparr>))"

subsection \<open>core/blockchain.py: the UTXO set\<close>

record utxo_data =
  u_address :: string
  u_amount :: rat
  u_script_pubkey :: string
  u_tx_id :: string
  u_output_index :: int

text \<open>
  \<open>utxos\<close> is the dict \<open>tx_id -> output_index -> data\<close>.  The code reads and writes it
  only at a pair \<open>(tx_id, output_index)\<close> and deletes an inner dict as soon as it is
  empty, so the model keeps the map from pairs to data.  \<open>address_utxos\<close> is the
  \<open>defaultdict(set)\<close> from addresses to pairs.
\<close>

record UTXOSet =
  utxos :: "string \<times> int \<rightharpoonup> utxo_data"
  address_utxos :: "string \<Rightarrow> (string \<times> int) set"
  total_supply :: rat

definition UTXOSet_init :: UTXOSet where
  "UTXOSet_init = \<lparr>utxos = Map.empty, address_utxos = (\<lambda>a. {}), total_supply = 0\<rparr>"

definition add_utxo :: "UTXOSet \<Rightarrow> string \<Rightarrow> int \<Rightarrow> utxo_data \<Rightarrow> UTXOSet" where
  "add_utxo S tid output_index d =
     S\<lparr>utxos := (utxos S)((tid, output_index) \<mapsto> d),
       address_utxos :=
         (if u_address d \<noteq> []
          then (address_utxos S)
                 (u_address d := insert (tid, output_index) (address_utxos S (u_address d)))
          else address_utxos S),
       total_supply := total_supply S + u_amount d\<rparr>"

definition remove_utxo :: "UTXOSet \<Rightarrow> string \<Rightarrow> int \<Rightarrow> UTXOSet" where
  "remove_utxo S tid output_index =
     (case utxos S (tid, output_index) of
        None \<Rightarrow> S
      | Some d \<Rightarrow>
          S\<lparr>address_utxos :=
              (if u_address d \<noteq> []
               then (address_utxos S)
                      (u_address d := address_utxos S (u_address d) - {(tid, output_index)})
               else address_utxos S),
            total_supply := total_supply S - u_amount d,
            utxos := (utxos S)((tid, output_index) := None)\<rparr>)"

definition get_utxo :: "UTXOSet \<Rightarrow> string \<Rightarrow> int \<Rightarrow> utxo_data option" where
  "get_utxo S tid output_index = utxos S (tid, output_index)"

subsection \<open>core/blockchain.py: the chain\<close>

record Blockchain =
  bc_chain :: "Block list"
  bc_difficulty :: int
  block_time_target :: rat
  utxo_set :: UTXOSet
  pending_transactions :: "transaction list"
  mempool :: "string \<rightharpoonup> transaction"
  difficulty_adjustment_interval :: int
  last_adjustment_block :: int

text \<open>\<open>tx.get('inputs', [])\<close> and \<open>tx.get('outputs', [])\<close>.\<close>

definition get_inputs :: "transaction \<Rightarrow> tx_input list" where
  "get_inputs tx = (case inputs tx of None \<Rightarrow> [] | Some ins \<Rightarrow> ins)"

definition get_outputs :: "transaction \<Rightarrow> tx_output list" where
  "get_outputs tx = (case outputs tx of None \<Rightarrow> [] | Some outs \<Rightarrow> outs)"

text \<open>\<open>_update_utxo_set\<close>: for every transaction of the block, first the loop over the
  inputs, then the loop over the enumerated outputs.\<close>

fun spend_inputs :: "UTXOSet \<Rightarrow> tx_input list \<Rightarrow> UTXOSet" where
  "spend_inputs S [] = S"
| "spend_inputs S (input_tx # rest) =
     spend_inputs
       (if prev_tx_id input_tx \<noteq> [] \<and> prev_output_index input_tx \<ge> 0
        then remove_utxo S (prev_tx_id input_tx) (prev_output_index input_tx)
        else S)
       rest"

fun create_outputs :: "UTXOSet \<Rightarrow> string \<Rightarrow> nat \<Rightarrow> tx_output list \<Rightarrow> UTXOSet" where
  "create_outputs S tid i [] = S"
| "create_outputs S tid i (output # rest) =
     create_outputs
       (add_utxo S tid (int i)
          \<lparr>u_address = address output, u_amount = amount output,
           u_script_pubkey = script_pubkey output, u_tx_id = tid, u_output_index = int i\<rparr>)
       tid (Suc i) rest"

definition apply_transaction :: "UTXOSet \<Rightarrow> transaction \<Rightarrow> UTXOSet" where
  "apply_transaction S tx =
     create_outputs (spend_inputs S (get_inputs tx)) (tx_id tx) 0 (get_outputs tx)"

definition update_utxo_set :: "UTXOSet \<Rightarrow> Block \<Rightarrow> UTXOSet" where
  "update_utxo_set S block = foldl apply_transaction S (transactions block)"

text \<open>\<open>_adjust_difficulty\<close>.  The float literals \<open>1.1\<close> and \<open>0.9\<close> are read as the
  rationals \<open>11/10\<close> and \<open>9/10\<close>.\<close>

definition adjust_difficulty :: "Blockchain \<Rightarrow> py_error + Blockchain" where
  "adjust_difficulty bc =
     (let n = int (length (bc_chain bc)) in
      if n < difficulty_adjustment_interval bc then Inr bc
      else if n - last_adjustment_block bc < difficulty_adjustment_interval bc then Inr bc
      else
        (case py_nth (bc_chain bc) (- difficulty_adjustment_interval bc) of
           Inl err \<Rightarrow> Inl err
         | Inr start_block \<Rightarrow>
        (case py_nth (bc_chain bc) (- 1) of
           Inl err \<Rightarrow> Inl err
         | Inr end_block \<Rightarrow>
             (let time_span = timestamp end_block - timestamp start_block;
                  expected_time = block_time_target bc * of_int (difficulty_adjustment_interval bc);
                  ratio = (if time_span > 0 then expected_time / time_span else 1);
                  bc' = (if ratio > 11 / 10
                         then bc\<lparr>bc_difficulty := max 1 (bc_difficulty bc - 1)\<rparr>
                         else if ratio < 9 / 10
                         then bc\<lparr>bc_difficulty := min 32 (bc_difficulty bc + 1)\<rparr>
                         else bc)
              in Inr (bc'\<lparr>last_adjustment_block := n\<rparr>)))))"

text \<open>\<open>_validate_transaction\<close>: the loop over the inputs returns \<open>False\<close> (here \<open>None\<close>)
  at the first input whose UTXO does not exist, and adds up the amounts otherwise.\<close>

fun input_sum_loop :: "UTXOSet \<Rightarrow> tx_input list \<Rightarrow> rat \<Rightarrow> rat option" where
  "input_sum_loop S [] input_sum = Some input_sum"
| "input_sum_loop S (input_tx # rest) input_sum =
     (if prev_tx_id input_tx \<noteq> [] \<and> prev_output_index input_tx \<ge> 0
      then (case get_utxo S (prev_tx_id input_tx) (prev_output_index input_tx) of
              None \<Rightarrow> None
            | Some utxo \<Rightarrow> input_sum_loop S rest (input_sum + u_amount utxo))
      else input_sum_loop S rest input_sum)"

definition validate_transaction :: "UTXOSet \<Rightarrow> transaction \<Rightarrow> bool" where
  "validate_transaction S tx =
     (if inputs tx = None \<or> outputs tx = None then False
      else (case input_sum_loop S (get_inputs tx) 0 of
              None \<Rightarrow> False
            | Some input_sum \<Rightarrow>
                (let output_sum = sum_list (map amount (get_outputs tx))
                 in if input_sum < output_sum then False else True)))"

definition add_transaction :: "Blockchain \<Rightarrow> transaction \<Rightarrow> Blockchain \<times> bool" where
  "add_transaction bc tx =
     (if \<not> validate_transaction (utxo_set bc) tx then (bc, False)
      else if tx_id tx \<in> dom (mempool bc) then (bc, False)
      else (bc\<lparr>mempool := (mempool bc)(tx_id tx \<mapsto> tx),
               pending_transactions := pending_transactions bc @ [tx]\<rparr>, True))"

text \<open>\<open>_create_coinbase_transaction\<close>; \<open>now\<close> is the value of \<open>time.time()\<close>.\<close>

definition block_reward :: "nat \<Rightarrow> rat" where
  "block_reward chain_len = 50 / 2 ^ (chain_len div 210000)"

definition create_coinbase_transaction :: "ext \<Rightarrow> rat \<Rightarrow> Blockchain \<Rightarrow> string \<Rightarrow> transaction" where
  "create_coinbase_transaction E now bc miner_address =
     \<lparr>tx_id = hex (sha256 E (encode (float_str E now @ miner_address
                                        @ nat_str (length (bc_chain bc))))),
      inputs = Some [],
      outputs = Some [\<lparr>address = miner_address,
                       amount = block_reward (length (bc_chain bc)),
                       script_pubkey = ''OP_DUP OP_HASH160 '' @ miner_address
                                         @ '' OP_EQUALVERIFY OP_CHECKSIG''\<rparr>],
      is_coinbase = True, is_genesis = False\<rparr>"

text \<open>\<open>add_block\<close>; \<open>now\<close> is the value of \<open>time.time()\<close> read by \<open>block.validate()\<close>.\<close>

definition add_block :: "ext \<Rightarrow> rat \<Rightarrow> Blockchain \<Rightarrow> Block \<Rightarrow> py_error + (Blockchain \<times> bool)" where
  "add_block E now bc block =
     (case Block_validate E now block of
        Inl err \<Rightarrow> Inl err
      | Inr valid \<Rightarrow>
          if \<not> valid then Inr (bc, False)
          else
            (case py_nth (bc_chain bc) (- 1) of
               Inl err \<Rightarrow> Inl err
             | Inr tip \<Rightarrow>
                 if previous_hash block \<noteq> hash tip then Inr (bc, False)
                 else if index block \<noteq> int (length (bc_chain bc)) then Inr (bc, False)
                 else if \<not> list_all (validate_transaction (utxo_set bc))
                                     (drop 1 (transactions block))
                   then Inr (bc, False)
                 else
                   (let bc1 = bc\<lparr>bc_chain := bc_chain bc @ [block]\<rparr>;
                        bc2 = bc1\<lparr>utxo_set := update_utxo_set (utxo_set bc1) block\<rparr>
                    in case adjust_difficulty bc2 of
                         Inl err \<Rightarrow> Inl err
                       | Inr bc3 \<Rightarrow> Inr (bc3, True))))"

text \<open>\<open>Blockchain(difficulty, block_time_target)\<close>.\<close>

definition Blockchain_init :: "ext \<Rightarrow> rat \<Rightarrow> rat \<Rightarrow> int \<Rightarrow> rat \<Rightarrow> py_error + Blockchain" where
  "Blockchain_init E now now' d target =
     (case create_genesis_block E now now' of
        Inl err \<Rightarrow> Inl err
      | Inr genesis \<Rightarrow>
          (let bc = \<lparr>bc_chain = [genesis], bc_difficulty = d, block_time_target = target,
                     utxo_set = UTXOSet_init, pending_transactions = [], mempool = Map.empty,
                     difficulty_adjustment_interval = 2016, last_adjustment_block = 0\<rparr>
           in Inr (bc\<lparr>utxo_set := update_utxo_set (utxo_set bc) genesis\<rparr>)))"

text \<open>A run of \<open>add_block\<close> calls, each with its block and its reading of the clock; the
  result of each call (accepted or rejected) is dropped, the state is kept.\<close>

fun add_blocks :: "ext \<Rightarrow> Blockchain \<Rightarrow> (rat \<times> Block) list \<Rightarrow> py_error + Blockchain" where
  "add_blocks E bc [] = Inr bc"
| "add_blocks E bc ((now, block) # rest) =
     (case add_block E now bc block of
        Inl err \<Rightarrow> Inl err
      | Inr (bc', accepted) \<Rightarrow> add_blocks E bc' rest)"

subsection \<open>Concrete inputs\<close>

text \<open>
  Stand-ins for the library functions, used to run the model on concrete inputs: every
  digest is 32 zero bytes, so every hash printed in hexadecimal is 64 zeros and meets
  every difficulty up to 64.
\<close>

definition zeros64 :: string where
  "zeros64 = replicate 64 (CHR ''0'')"

definition test_ext :: ext where
  "test_ext = \<lparr>sha256 = (\<lambda>bs. replicate 32 0), sha3_256 = (\<lambda>bs. replicate 32 0),
               b64encode = (\<lambda>bs. bs), json_header = (\<lambda>h. []), json_tx = (\<lambda>tx. []),
               float_str = (\<lambda>t. ''0.0'')\<rparr>"

definition example_header :: "int \<Rightarrow> BlockHeader" where
  "example_header height =
     \<lparr>h_version = 1, h_prev_block_hash = zeros64, h_merkle_root = zeros64, h_timestamp = 0,
      h_difficulty_target = 4, h_nonce = 0, h_block_height = height, h_extra_nonce = 0,
      h_chain_work = calculate_chain_work 4\<rparr>"

text \<open>The block of height \<open>height\<close> with the given transactions, as the constructor
  \<open>Block(height, txs, previous_hash, 4)\<close> builds it at time 0 under \<open>test_ext\<close>.\<close>

definition example_block :: "int \<Rightarrow> transaction list \<Rightarrow> Block" where
  "example_block height txs =
     \<lparr>index = height, transactions = txs, previous_hash = zeros64, timestamp = 0,
      difficulty = 4, nonce = 0, extra_nonce = 0, merkle_root = zeros64,
      chain_work = calculate_chain_work 4, header = example_header height, hash = zeros64\<rparr>"

text \<open>A coinbase paying the reward of 50 to the address \<open>A\<close>, a second one paying \<open>B\<close>,
  and three transactions that spend the output of the first: \<open>spend_1\<close> pays 40 and leaves
  a fee of 10, \<open>spend_2\<close> pays 30, \<open>spend_twice\<close> names the outpoint in two inputs and
  pays 100.\<close>

definition coinbase_to :: "string \<Rightarrow> string \<Rightarrow> rat \<Rightarrow> transaction" where
  "coinbase_to tid miner_address reward =
     \<lparr>tx_id = tid, inputs = Some [],
      outputs = Some [\<lparr>address = miner_address, amount = reward,
                       script_pubkey = ''OP_DUP OP_HASH160 '' @ miner_address
                                         @ '' OP_EQUALVERIFY OP_CHECKSIG''\<rparr>],
      is_coinbase = True, is_genesis = False\<rparr>"

definition payment :: "string \<Rightarrow> (string \<times> int) list \<Rightarrow> string \<Rightarrow> rat \<Rightarrow> transaction" where
  "payment tid spent receiver paid =
     \<lparr>tx_id = tid,
      inputs = Some (map (\<lambda>(t, i). \<lparr>prev_tx_id = t, prev_output_index = i\<rparr>) spent),
      outputs = Some [\<lparr>address = receiver, amount = paid, script_pubkey = ''''\<rparr>],
      is_coinbase = False, is_genesis = False\<rparr>"

definition spend_1 :: transaction where
  "spend_1 = payment ''t1'' [(''cb1'', 0)] ''C'' 40"

definition spend_2 :: transaction where
  "spend_2 = payment ''t2'' [(''cb1'', 0)] ''D'' 30"

definition spend_twice :: transaction where
  "spend_twice = payment ''t3'' [(''cb1'', 0), (''cb1'', 0)] ''C'' 100"

definition block_1 :: Block where
  "block_1 = example_block 1 [coinbase_to ''cb1'' ''A'' 50]"


text \<open>The chain \<open>Blockchain(4, 1.0)\<close> after its constructor, and after \<open>block_1\<close>.\<close>

definition state_0 :: Blockchain where
  "state_0 =
     \<lparr>bc_chain = [example_block 0 [genesis_transaction]], bc_difficulty = 4,
      block_time_target = 1,
      utxo_set = apply_transaction UTXOSet_init genesis_transaction,
      pending_transactions = [], mempool = Map.empty,
      difficulty_adjustment_interval = 2016, last_adjustment_block = 0\<rparr>"

definition state_1 :: Blockchain where
  "state_1 =
     state_0\<lparr>bc_chain := bc_chain state_0 @ [block_1],
              utxo_set := apply_transaction (utxo_set state_0) (coinbase_to ''cb1'' ''A'' 50)\<rparr>"


section \<open>Properties\<close>

declare encode_loop.simps [simp del] bit_length.simps [simp del]

lemma distinct_alphabet: "distinct BASE58_ALPHABET"
  by (simp add: BASE58_ALPHABET_def)

lemma length_alphabet: "length BASE58_ALPHABET = 58"
  by (simp add: BASE58_ALPHABET_def)

lemma str_index_nth: "distinct xs \<Longrightarrow> m < length xs \<Longrightarrow> str_index xs (xs ! m) = Some m"
proof (induction xs arbitrary: m)
  case Nil then show ?case by simp
next
  case (Cons x xs)
  show ?case
  proof (cases m)
    case 0 then show ?thesis by simp
  next
    case (Suc k)
    with Cons.prems have "xs ! k \<in> set xs" "x \<notin> set xs" by auto
    then have "x \<noteq> xs ! k" by auto
    with Cons Suc show ?thesis by simp
  qed
qed

lemma str_index_alphabet: "m < 58 \<Longrightarrow> str_index BASE58_ALPHABET (BASE58_ALPHABET ! m) = Some m"
  by (rule str_index_nth [OF distinct_alphabet]) (simp add: length_alphabet)

lemma encode_loop_zero: "encode_loop 0 acc = acc"
  by (simp add: encode_loop.simps)

lemma encode_loop_step:
  "0 < n \<Longrightarrow> encode_loop n acc = encode_loop (n div 58) (BASE58_ALPHABET ! (n mod 58) # acc)"
  by (subst encode_loop.simps) simp

lemma encode_loop_acc: "encode_loop n acc = encode_loop n [] @ acc"
proof (induction n arbitrary: acc rule: less_induct)
  case (less n)
  show ?case
  proof (cases "0 < n")
    case False
    then show ?thesis by (simp add: encode_loop_zero)
  next
    case True
    let ?c = "BASE58_ALPHABET ! (n mod 58)"
    from True have lt: "n div 58 < n" by simp
    have "encode_loop n acc = encode_loop (n div 58) [] @ (?c # acc)"
      using less.IH [OF lt, of "?c # acc"] True by (simp add: encode_loop_step)
    moreover have "encode_loop n [] = encode_loop (n div 58) [] @ [?c]"
      using less.IH [OF lt, of "[?c]"] True by (simp add: encode_loop_step)
    ultimately show ?thesis by simp
  qed
qed

lemma encode_loop_pos:
  "0 < n \<Longrightarrow> encode_loop n [] = encode_loop (n div 58) [] @ [BASE58_ALPHABET ! (n mod 58)]"
  using encode_loop_acc [of "n div 58" "[BASE58_ALPHABET ! (n mod 58)]"]
  by (simp add: encode_loop_step)

lemma decode_loop_digits: "decode_loop (encode_loop n [] @ cs) 0 = decode_loop cs n"
proof (induction n arbitrary: cs rule: less_induct)
  case (less n)
  show ?case
  proof (cases "0 < n")
    case False
    then show ?thesis by (simp add: encode_loop_zero)
  next
    case True
    let ?c = "BASE58_ALPHABET ! (n mod 58)"
    from True have lt: "n div 58 < n" by simp
    have "decode_loop (encode_loop n [] @ cs) 0 = decode_loop (encode_loop (n div 58) [] @ (?c # cs)) 0"
      using True by (simp add: encode_loop_pos)
    also have "\<dots> = decode_loop (?c # cs) (n div 58)"
      by (rule less.IH [OF lt])
    also have "\<dots> = decode_loop cs (n div 58 * 58 + n mod 58)"
      by (simp add: str_index_alphabet)
    finally show ?thesis by simp
  qed
qed

lemma decode_loop_ones:
  "decode_loop (replicate k (BASE58_ALPHABET ! 0) @ cs) 0 = decode_loop cs 0"
  by (induction k) (simp_all add: str_index_alphabet)

lemma encode_loop_head:
  "0 < n \<Longrightarrow> \<exists>m cs. encode_loop n [] = (BASE58_ALPHABET ! m) # cs \<and> 0 < m \<and> m < 58"
proof (induction n rule: less_induct)
  case (less n)
  show ?case
  proof (cases "0 < n div 58")
    case True
    with less.prems have lt: "n div 58 < n" by simp
    from less.IH [OF lt True] obtain m cs
      where "encode_loop (n div 58) [] = (BASE58_ALPHABET ! m) # cs" "0 < m" "m < 58"
      by blast
    with less.prems have "encode_loop n [] = (BASE58_ALPHABET ! m) # (cs @ [BASE58_ALPHABET ! (n mod 58)])"
      by (simp add: encode_loop_pos)
    with \<open>0 < m\<close> \<open>m < 58\<close> show ?thesis by blast
  next
    case False
    then have "n div 58 = 0" by simp
    with less.prems have "encode_loop n [] = [BASE58_ALPHABET ! (n mod 58)]" "0 < n mod 58"
      by (simp_all add: encode_loop_pos encode_loop_zero div_eq_0_iff)
    then show ?thesis by (metis mod_less_divisor zero_less_numeral)
  qed
qed

lemma count_leading_replicate:
  "count_leading z (replicate k z @ xs) = k + count_leading z xs"
  by (induction k) simp_all

lemma count_leading_encode: "count_leading (BASE58_ALPHABET ! 0) (encode_loop n []) = 0"
proof (cases "0 < n")
  case False
  then show ?thesis by (simp add: encode_loop_zero)
next
  case True
  from encode_loop_head [OF True] obtain m cs
    where e: "encode_loop n [] = (BASE58_ALPHABET ! m) # cs" and m: "0 < m" "m < 58"
    by blast
  have "BASE58_ALPHABET ! m \<noteq> BASE58_ALPHABET ! 0"
    using m distinct_alphabet by (simp add: nth_eq_iff_index_eq length_alphabet)
  with e show ?thesis by simp
qed

lemma from_bytes_big_snoc: "from_bytes_big (bs @ [b]) = from_bytes_big bs * 256 + unat b"
  by (simp add: from_bytes_big_def)

lemma from_bytes_big_zeros: "from_bytes_big (replicate k 0 @ bs) = from_bytes_big bs"
proof -
  have "foldl (\<lambda>acc b. acc * 256 + unat b) 0 (replicate k (0::byte)) = 0"
    by (induction k) simp_all
  then show ?thesis by (simp add: from_bytes_big_def)
qed

lemma split_leading:
  "data = replicate (count_leading z data) z @ drop (count_leading z data) data"
  by (induction data) simp_all

lemma drop_leading_head:
  "drop (count_leading z data) data = [] \<or> hd (drop (count_leading z data) data) \<noteq> z"
  by (induction data) simp_all

lemma from_bytes_big_upper: "from_bytes_big bs < 256 ^ length bs"
proof (induction bs rule: rev_induct)
  case Nil then show ?case by (simp add: from_bytes_big_def)
next
  case (snoc b bs)
  have "unat b < 256" using unsigned_less [of b] by simp
  with snoc show ?case by (simp add: from_bytes_big_snoc)
qed

lemma from_bytes_big_lower:
  "bs \<noteq> [] \<Longrightarrow> hd bs \<noteq> 0 \<Longrightarrow> 256 ^ (length bs - 1) \<le> from_bytes_big bs"
proof (induction bs rule: rev_induct)
  case Nil then show ?case by simp
next
  case (snoc b bs)
  show ?case
  proof (cases "bs = []")
    case True
    with snoc.prems have "unat b \<noteq> 0" by (simp add: unat_eq_0)
    with True show ?thesis by (simp add: from_bytes_big_def)
  next
    case False
    with snoc have "256 ^ (length bs - 1) \<le> from_bytes_big bs" by simp
    then have "256 * 256 ^ (length bs - 1) \<le> from_bytes_big bs * 256" by simp
    moreover from False have "(256::nat) * 256 ^ (length bs - 1) = 256 ^ length bs"
      by (cases bs) simp_all
    ultimately show ?thesis by (simp add: from_bytes_big_snoc)
  qed
qed



lemma bit_length_zero: "bit_length 0 = 0"
  by (subst bit_length.simps) simp

lemma bit_length_pos: "0 < n \<Longrightarrow> bit_length n = Suc (bit_length (n div 2))"
  by (subst bit_length.simps) simp

lemma bit_length_bounds: "0 < n \<Longrightarrow> 2 ^ (bit_length n - 1) \<le> n \<and> n < 2 ^ bit_length n"
proof (induction n rule: less_induct)
  case (less n)
  note bl = bit_length_pos [OF less.prems]
  show ?case
  proof (cases "0 < n div 2")
    case False
    then have z: "n div 2 = 0" by simp
    with less.prems have n: "n = 1" by (simp add: div_eq_0_iff)
    have "bit_length n = Suc 0" unfolding bl z bit_length_zero ..
    then show ?thesis unfolding n by simp
  next
    case True
    with less.prems have lt: "n div 2 < n" by simp
    define b where "b = bit_length (n div 2)"
    define h where "h = n div 2"
    from less.IH [OF lt True]
    have lo: "2 ^ (b - 1) \<le> h" and hi: "h < 2 ^ b"
      by (simp_all add: b_def h_def)
    have "b = Suc (bit_length (n div 2 div 2))"
      unfolding b_def by (rule bit_length_pos [OF True])
    then obtain c where b: "b = Suc c" by blast
    have n1: "2 * h \<le> n" and n2: "n \<le> 2 * h + 1" unfolding h_def by presburger+
    from lo have "2 * 2 ^ c \<le> 2 * h" by (simp add: b)
    with n1 have g1: "(2::nat) ^ b \<le> n" by (simp add: b)
    define P :: nat where "P = 2 ^ b"
    from hi have "h < P" by (simp add: P_def)
    with n2 have "n < 2 * P" by linarith
    then have g2: "n < 2 * 2 ^ b" by (simp add: P_def)
    have "bit_length n = Suc b" unfolding bl b_def ..
    with g1 g2 show ?thesis by simp
  qed
qed

lemma byte_length_exact:
  assumes "bs \<noteq> []" "hd bs \<noteq> 0"
  shows "(bit_length (from_bytes_big bs) + 7) div 8 = length bs"
proof -
  define N where "N = from_bytes_big bs"
  define L where "L = length bs"
  define B where "B = bit_length N"
  from assms have lo: "256 ^ (L - 1) \<le> N" unfolding N_def L_def by (rule from_bytes_big_lower)
  have hi: "N < 256 ^ L" unfolding N_def L_def by (rule from_bytes_big_upper)
  have "(0::nat) < 256 ^ (L - 1)" by simp
  then have pos: "0 < N" using lo by (rule less_le_trans)
  from bit_length_bounds [OF pos]
  have b1: "2 ^ (B - 1) \<le> N" and b2: "N < 2 ^ B" by (simp_all add: B_def)
  have e1: "(256::nat) ^ (L - 1) = 2 ^ (8 * (L - 1))"
    by (simp only: power_mult) simp
  have e2: "(256::nat) ^ L = 2 ^ (8 * L)"
    by (simp only: power_mult) simp
  have "(2::nat) ^ (8 * (L - 1)) < 2 ^ B"
    using lo b2 unfolding e1 by (rule le_less_trans)
  then have c1: "8 * (L - 1) < B"
    by (rule power_less_imp_less_exp [rotated]) simp
  have "(2::nat) ^ (B - 1) < 2 ^ (8 * L)"
    using b1 hi unfolding e2 by (rule le_less_trans)
  then have c2: "B - 1 < 8 * L"
    by (rule power_less_imp_less_exp [rotated]) simp
  from assms have "0 < L" by (simp add: L_def)
  with c1 c2 have "(B + 7) div 8 = L" by arith
  then show ?thesis by (simp add: B_def N_def L_def)
qed

lemma big_endian_digits_from_bytes: "big_endian_digits (from_bytes_big bs) (length bs) = bs"
proof (induction bs rule: rev_induct)
  case Nil then show ?case by simp
next
  case (snoc b bs)
  have "unat b < 256" using unsigned_less [of b] by simp
  then have "(from_bytes_big bs * 256 + unat b) div 256 = from_bytes_big bs"
    and "(from_bytes_big bs * 256 + unat b) mod 256 = unat b"
    by simp_all
  with snoc show ?case by (simp add: from_bytes_big_snoc)
qed

lemma to_bytes_big_from_bytes:
  assumes "bs = [] \<or> hd bs \<noteq> 0"
  shows "to_bytes_big (from_bytes_big bs) ((bit_length (from_bytes_big bs) + 7) div 8) = Inr bs"
proof (cases "bs = []")
  case True
  then show ?thesis
    by (simp add: from_bytes_big_def to_bytes_big_def bit_length.simps [of 0])
next
  case False
  with assms have len: "(bit_length (from_bytes_big bs) + 7) div 8 = length bs"
    by (simp add: byte_length_exact)
  have "\<not> 256 ^ length bs \<le> from_bytes_big bs"
    using from_bytes_big_upper [of bs] by simp
  then show ?thesis
    by (simp add: len to_bytes_big_def big_endian_digits_from_bytes)
qed

theorem base58_roundtrip: "base58_decode (base58_encode d) = Inr d"
proof (cases "d = []")
  case True
  then show ?thesis by (simp add: base58_encode_def base58_decode_def)
next
  case False
  define k where "k = count_leading 0 d"
  define r where "r = drop k d"
  define e where "e = encode_loop (from_bytes_big d) []"
  have d: "d = replicate k 0 @ r"
    unfolding k_def r_def by (rule split_leading)
  have r: "r = [] \<or> hd r \<noteq> 0"
    unfolding k_def r_def by (rule drop_leading_head)
  have num: "from_bytes_big d = from_bytes_big r"
    by (subst d) (rule from_bytes_big_zeros)
  define s where "s = replicate k (BASE58_ALPHABET ! 0) @ e"
  have enc: "base58_encode d = s"
    using False by (simp add: base58_encode_def k_def e_def s_def)
  have nonempty: "s \<noteq> []"
  proof
    assume "s = []"
    then have "k = 0" "e = []" by (simp_all add: s_def)
    then have "from_bytes_big r = 0"
      using encode_loop_head [of "from_bytes_big d"] by (auto simp: e_def num)
    moreover from \<open>k = 0\<close> d False have "r \<noteq> []" by simp
    ultimately show False
      using r from_bytes_big_lower [of r] by simp
  qed
  have lead: "count_leading (BASE58_ALPHABET ! 0) s = k"
    by (simp add: s_def count_leading_replicate count_leading_encode e_def)
  have "decode_loop s 0 = decode_loop e 0"
    unfolding s_def by (rule decode_loop_ones)
  also have "\<dots> = Inr (from_bytes_big d)"
    using decode_loop_digits [of "from_bytes_big d" "[]"] by (simp add: e_def)
  finally have dec: "decode_loop s 0 = Inr (from_bytes_big r)"
    by (simp add: num)
  have "base58_decode s = Inr (replicate k 0 @ r)"
    using nonempty
    by (simp add: base58_decode_def lead dec to_bytes_big_from_bytes [OF r])
  then show ?thesis by (simp add: enc d [symmetric])
qed

subsection \<open>Script evaluation and \<open>OP_RETURN\<close>\<close>

lemma split_example: "split ''1 1 OP_RETURN'' = [''1'', ''1'', ''OP_RETURN'']"
  by (simp add: split_def is_space_def)

text \<open>
  C7 claims that every script containing \<open>OP_RETURN\<close> evaluates to false.  The branch of
  \<open>_execute_operation\<close> for \<open>OP_RETURN\<close> pops one item and returns \<open>True\<close>, so execution
  goes on: the script \<open>1 1 OP_RETURN\<close> pushes two strings, \<open>OP_RETURN\<close> pops one, and
  \<open>execute\<close> returns \<open>True\<close> on the non-empty string left on top.  An opcode after
  \<open>OP_RETURN\<close> is executed as well: \<open>1 OP_RETURN OP_GENESIS\<close> returns \<open>True\<close>.
\<close>

theorem op_return_script_succeeds:
  "execute sha256_digest e ''1 1 OP_RETURN''
     = Inr (True, e\<lparr>stack := [StrItem ''1''], alt_stack := []\<rparr>)
   \<and> execute sha256_digest e ''1 OP_RETURN OP_GENESIS''
     = Inr (True, e\<lparr>stack := [StrItem ''GENESIS''], alt_stack := []\<rparr>)"
  by (simp add: execute_def split_def is_space_def execute_operation_def startswith_def)

subsection \<open>The Merkle root\<close>

declare merkle_loop.simps [simp del] int_hex.simps [simp del] nat_str.simps [simp del]

lemma duplicate_last_even: "even (length (duplicate_last hs))"
  by (auto simp: duplicate_last_def odd_iff_mod_2_eq_one)


lemma pair_level_even:
  "even (length xs) \<Longrightarrow>
     \<exists>ys. pair_level E xs = Inr ys \<and> length xs = 2 * length ys \<and>
       (\<forall>i<length ys.
          ys ! i = hex (sha256 E (sha256 E (encode (xs ! (2 * i) @ xs ! (2 * i + 1))))))"
proof (induction E xs rule: pair_level.induct)
  case (1 E)
  then show ?case by simp
next
  case (2 E a)
  then show ?case by simp
next
  case (3 E a b rest)
  then have "even (length rest)" by simp
  with 3 obtain ys where ys: "pair_level E rest = Inr ys" "length rest = 2 * length ys"
    and nth: "\<And>i. i < length ys \<Longrightarrow>
          ys ! i = hex (sha256 E (sha256 E (encode (rest ! (2 * i) @ rest ! (2 * i + 1)))))"
    by blast
  let ?h = "hex (sha256 E (sha256 E (encode (a @ b))))"
  have "pair_level E (a # b # rest) = Inr (?h # ys)"
    by (simp add: ys)
  moreover have "length (a # b # rest) = 2 * length (?h # ys)"
    by (simp add: ys)
  moreover have "(?h # ys) ! i
      = hex (sha256 E (sha256 E (encode ((a # b # rest) ! (2 * i) @ (a # b # rest) ! (2 * i + 1)))))"
    if "i < length (?h # ys)" for i
  proof (cases i)
    case 0
    then show ?thesis by simp
  next
    case (Suc j)
    with that have "j < length ys" by simp
    then show ?thesis by (simp add: Suc nth)
  qed
  ultimately show ?case by blast
qed

lemma merkle_loop_step:
  assumes "1 < length hs"
  shows "\<exists>level. pair_level E (duplicate_last hs) = Inr level
           \<and> merkle_loop E hs = merkle_loop E level
           \<and> length (duplicate_last hs) = 2 * length level
           \<and> (\<forall>i<length level.
                 level ! i = hex (sha256 E (sha256 E
                    (encode (duplicate_last hs ! (2 * i) @ duplicate_last hs ! (2 * i + 1))))))"
proof -
  from pair_level_even [OF duplicate_last_even, of E hs]
  obtain level where level: "pair_level E (duplicate_last hs) = Inr level"
      "length (duplicate_last hs) = 2 * length level"
      "\<forall>i<length level. level ! i = hex (sha256 E (sha256 E
          (encode (duplicate_last hs ! (2 * i) @ duplicate_last hs ! (2 * i + 1)))))"
    by blast
  have "merkle_loop E hs = merkle_loop E level"
    using assms by (subst merkle_loop.simps) (simp add: level)
  with level show ?thesis by blast
qed

lemma merkle_loop_short: "length hs \<le> 1 \<Longrightarrow> merkle_loop E hs = Inr hs"
  by (subst merkle_loop.simps) simp

lemma merkle_loop_total:
  "hs \<noteq> [] \<Longrightarrow> \<exists>r. merkle_loop E hs = Inr [r]"
proof (induction "length hs" arbitrary: hs rule: less_induct)
  case less
  show ?case
  proof (cases "1 < length hs")
    case False
    with less.prems obtain r where "hs = [r]"
      by (cases hs) auto
    then show ?thesis by (simp add: merkle_loop_short)
  next
    case True
    from merkle_loop_step [OF True, of E] obtain level
      where level: "merkle_loop E hs = merkle_loop E level"
        "length (duplicate_last hs) = 2 * length level"
      by blast
    have "length (duplicate_last hs) \<le> length hs + 1" "length hs \<le> length (duplicate_last hs)"
      by (simp_all add: duplicate_last_def)
    with level True have "length level < length hs" "level \<noteq> []"
      by auto
    from less.hyps [OF this] level show ?thesis by simp
  qed
qed


subsection \<open>Transaction validation and the mempool\<close>

text \<open>The outpoints a transaction spends, in the order of its inputs and with
  repetitions: the pairs \<open>(prev_tx_id, prev_output_index)\<close> of the inputs that pass the
  test \<open>prev_tx_id and prev_output_index >= 0\<close> of both loops over the inputs.\<close>

definition outpoints :: "transaction \<Rightarrow> (string \<times> int) list" where
  "outpoints tx =
     map (\<lambda>i. (prev_tx_id i, prev_output_index i))
       (filter (\<lambda>i. prev_tx_id i \<noteq> [] \<and> prev_output_index i \<ge> 0) (get_inputs tx))"



definition output_total :: "transaction \<Rightarrow> rat" where
  "output_total tx = sum_list (map amount (get_outputs tx))"




text \<open>
  C3 (as amended).  \<open>add_transaction\<close> looks at the UTXO set of the chain and at the
  transaction ids in the mempool, and at nothing else: it keeps no record of the
  outpoints spent by the transactions of the mempool.  After a first transaction has been
  admitted, a second one is admitted exactly when it passes \<open>_validate_transaction\<close>
  against the unchanged UTXO set and its id is neither the first one's nor already in the
  mempool, whether or not the two spend the same outpoint; both are then in the mempool.
\<close>

theorem second_spend_admitted:
  assumes "add_transaction bc tx1 = (bc1, True)"
  shows "utxo_set bc1 = utxo_set bc
    \<and> snd (add_transaction bc1 tx2)
           = (validate_transaction (utxo_set bc) tx2
              \<and> tx_id tx2 \<noteq> tx_id tx1 \<and> tx_id tx2 \<notin> dom (mempool bc))
    \<and> (snd (add_transaction bc1 tx2) \<longrightarrow>
           mempool (fst (add_transaction bc1 tx2)) (tx_id tx1) = Some tx1
           \<and> mempool (fst (add_transaction bc1 tx2)) (tx_id tx2) = Some tx2
           \<and> pending_transactions (fst (add_transaction bc1 tx2))
               = pending_transactions bc @ [tx1, tx2])"
proof -
  from assms have bc1: "bc1 = bc\<lparr>mempool := (mempool bc)(tx_id tx1 \<mapsto> tx1),
               pending_transactions := pending_transactions bc @ [tx1]\<rparr>"
    by (auto simp: add_transaction_def split: if_splits)
  have a: "utxo_set bc1 = utxo_set bc" by (simp add: bc1)
  have b: "snd (add_transaction bc1 tx2)
           = (validate_transaction (utxo_set bc) tx2
              \<and> tx_id tx2 \<noteq> tx_id tx1 \<and> tx_id tx2 \<notin> dom (mempool bc))"
    by (auto simp: add_transaction_def bc1)
  have c: "mempool (fst (add_transaction bc1 tx2)) (tx_id tx1) = Some tx1
           \<and> mempool (fst (add_transaction bc1 tx2)) (tx_id tx2) = Some tx2
           \<and> pending_transactions (fst (add_transaction bc1 tx2))
               = pending_transactions bc @ [tx1, tx2]"
    if "snd (add_transaction bc1 tx2)"
    using that by (auto simp: add_transaction_def bc1 split: if_splits)
  from a b c show ?thesis by blast
qed

subsection \<open>Difficulty adjustment\<close>

lemma py_nth_last: "xs \<noteq> [] \<Longrightarrow> py_nth xs (- 1) = Inr (last xs)"
  by (cases xs rule: rev_cases) (auto simp: py_nth_def nat_add_distrib nth_append)

lemma py_nth_from_end:
  "0 < k \<Longrightarrow> k \<le> int (length xs) \<Longrightarrow> py_nth xs (- k) = Inr (xs ! (length xs - nat k))"
proof -
  assume k: "0 < k" "k \<le> int (length xs)"
  then have "nat (int (length xs) + - k) = length xs - nat k"
    by linarith
  with k show ?thesis by (simp add: py_nth_def)
qed

lemma adjust_difficulty_skip:
  "int (length (bc_chain bc)) < difficulty_adjustment_interval bc
   \<or> int (length (bc_chain bc)) - last_adjustment_block bc < difficulty_adjustment_interval bc
   \<Longrightarrow> adjust_difficulty bc = Inr bc"
  by (auto simp: adjust_difficulty_def Let_def)

text \<open>The quotient \<open>expected_time / time_span\<close> that \<open>_adjust_difficulty\<close> computes from
  the block 2016 places from the end of the chain and the last block.\<close>

definition adjustment_ratio :: "Blockchain \<Rightarrow> rat" where
  "adjustment_ratio bc =
     (let time_span = timestamp (last (bc_chain bc))
                      - timestamp (bc_chain bc ! (length (bc_chain bc)
                                     - nat (difficulty_adjustment_interval bc)))
      in if time_span > 0
         then block_time_target bc * of_int (difficulty_adjustment_interval bc) / time_span
         else 1)"

lemma adjust_difficulty_due:
  assumes "0 < difficulty_adjustment_interval bc"
    and "\<not> int (length (bc_chain bc)) < difficulty_adjustment_interval bc"
    and "\<not> int (length (bc_chain bc)) - last_adjustment_block bc
            < difficulty_adjustment_interval bc"
  shows "adjust_difficulty bc =
     Inr (bc\<lparr>bc_difficulty :=
               (if adjustment_ratio bc > 11 / 10 then max 1 (bc_difficulty bc - 1)
                else if adjustment_ratio bc < 9 / 10 then min 32 (bc_difficulty bc + 1)
                else bc_difficulty bc),
             last_adjustment_block := int (length (bc_chain bc))\<rparr>)"
proof -
  from assms have ne: "bc_chain bc \<noteq> []" by auto
  from assms have start: "py_nth (bc_chain bc) (- difficulty_adjustment_interval bc)
      = Inr (bc_chain bc ! (length (bc_chain bc) - nat (difficulty_adjustment_interval bc)))"
    by (intro py_nth_from_end) auto
  show ?thesis
    using assms(2,3)
    by (simp add: adjust_difficulty_def start py_nth_last [OF ne] adjustment_ratio_def Let_def)
qed

text \<open>
  C4 (as amended).  \<open>_adjust_difficulty\<close> does not multiply a target by a ratio of
  timespans.  With a positive adjustment interval (the constructor sets 2016) it never
  raises; it leaves the chain state as it is while the chain has fewer blocks than the
  interval, or fewer than the interval since the last adjustment; otherwise it sets
  \<open>last_adjustment_block\<close> to the length of the chain and changes nothing else but the
  difficulty, the number of leading zeros required of a block hash: the difficulty stays
  the same when \<open>expected_time / time_span\<close> lies between 0.9 and 1.1, and otherwise
  moves by one step at most and stays between 1 and 32 when it was there before.
\<close>

theorem difficulty_moves_one_step:
  assumes "0 < difficulty_adjustment_interval bc"
  shows "\<exists>bc'. adjust_difficulty bc = Inr bc'
    \<and> (int (length (bc_chain bc)) < difficulty_adjustment_interval bc
        \<or> int (length (bc_chain bc)) - last_adjustment_block bc
             < difficulty_adjustment_interval bc
        \<longrightarrow> bc' = bc)
    \<and> (difficulty_adjustment_interval bc \<le> int (length (bc_chain bc))
        \<and> difficulty_adjustment_interval bc
             \<le> int (length (bc_chain bc)) - last_adjustment_block bc
        \<longrightarrow> bc' = bc\<lparr>bc_difficulty := bc_difficulty bc',
                      last_adjustment_block := int (length (bc_chain bc))\<rparr>
          \<and> (9 / 10 \<le> adjustment_ratio bc \<and> adjustment_ratio bc \<le> 11 / 10
               \<longrightarrow> bc_difficulty bc' = bc_difficulty bc)
          \<and> (1 \<le> bc_difficulty bc \<and> bc_difficulty bc \<le> 32
               \<longrightarrow> 1 \<le> bc_difficulty bc' \<and> bc_difficulty bc' \<le> 32
                   \<and> \<bar>bc_difficulty bc' - bc_difficulty bc\<bar> \<le> 1))"
proof (cases "int (length (bc_chain bc)) < difficulty_adjustment_interval bc
        \<or> int (length (bc_chain bc)) - last_adjustment_block bc
             < difficulty_adjustment_interval bc")
  case True
  then have "adjust_difficulty bc = Inr bc" by (rule adjust_difficulty_skip)
  with True show ?thesis by auto
next
  case False
  then have due: "\<not> int (length (bc_chain bc)) < difficulty_adjustment_interval bc"
    "\<not> int (length (bc_chain bc)) - last_adjustment_block bc
            < difficulty_adjustment_interval bc"
    by auto
  define d' where "d' = (if adjustment_ratio bc > 11 / 10 then max 1 (bc_difficulty bc - 1)
                else if adjustment_ratio bc < 9 / 10 then min 32 (bc_difficulty bc + 1)
                else bc_difficulty bc)"
  define bc' where "bc' = bc\<lparr>bc_difficulty := d',
                              last_adjustment_block := int (length (bc_chain bc))\<rparr>"
  have run: "adjust_difficulty bc = Inr bc'"
    unfolding bc'_def d'_def by (rule adjust_difficulty_due [OF assms due])
  have d: "bc_difficulty bc' = d'" by (simp add: bc'_def)
  have shape: "bc' = bc\<lparr>bc_difficulty := bc_difficulty bc',
                      last_adjustment_block := int (length (bc_chain bc))\<rparr>"
    by (simp add: bc'_def)
  have band: "bc_difficulty bc' = bc_difficulty bc"
    if "9 / 10 \<le> adjustment_ratio bc \<and> adjustment_ratio bc \<le> 11 / 10"
    using that by (simp add: d d'_def)
  have step: "1 \<le> bc_difficulty bc' \<and> bc_difficulty bc' \<le> 32
                   \<and> \<bar>bc_difficulty bc' - bc_difficulty bc\<bar> \<le> 1"
    if "1 \<le> bc_difficulty bc \<and> bc_difficulty bc \<le> 32"
    using that unfolding d d'_def by (auto simp: max_def min_def)
  from run False shape band step show ?thesis by blast
qed

subsection \<open>The chain is hash-linked\<close>

lemma calculate_merkle_root_total: "\<exists>r. calculate_merkle_root E txs = Inr r"
proof (cases "txs = []")
  case True
  then show ?thesis by (simp add: calculate_merkle_root_def)
next
  case False
  then have "map (hash_transaction E) txs \<noteq> []" by simp
  from merkle_loop_total [OF this] obtain r
    where "merkle_loop E (map (hash_transaction E) txs) = Inr [r]" by blast
  with False show ?thesis by (simp add: calculate_merkle_root_def)
qed

lemma Block_validate_total: "\<exists>v. Block_validate E now b = Inr v"
proof -
  from calculate_merkle_root_total obtain r
    where "calculate_merkle_root E (transactions b) = Inr r" by blast
  then show ?thesis by (auto simp: Block_validate_def)
qed

lemma adjust_difficulty_keeps:
  assumes "0 < difficulty_adjustment_interval bc"
  shows "\<exists>bc'. adjust_difficulty bc = Inr bc' \<and> bc_chain bc' = bc_chain bc
           \<and> utxo_set bc' = utxo_set bc
           \<and> difficulty_adjustment_interval bc' = difficulty_adjustment_interval bc"
proof (cases "int (length (bc_chain bc)) < difficulty_adjustment_interval bc
        \<or> int (length (bc_chain bc)) - last_adjustment_block bc
             < difficulty_adjustment_interval bc")
  case True
  then show ?thesis by (simp add: adjust_difficulty_skip)
next
  case False
  then show ?thesis by (simp add: adjust_difficulty_due [OF assms])
qed

text \<open>The two outcomes of \<open>add_block\<close> on a chain that has a block and a positive
  adjustment interval.\<close>

definition block_accepted :: "ext \<Rightarrow> rat \<Rightarrow> Blockchain \<Rightarrow> Block \<Rightarrow> bool" where
  "block_accepted E now bc block =
     (Block_validate E now block = Inr True
      \<and> previous_hash block = hash (last (bc_chain bc))
      \<and> index block = int (length (bc_chain bc))
      \<and> list_all (validate_transaction (utxo_set bc)) (drop 1 (transactions block)))"

lemma add_block_rejects:
  assumes "bc_chain bc \<noteq> []" and "\<not> block_accepted E now bc block"
  shows "add_block E now bc block = Inr (bc, False)"
proof -
  from Block_validate_total obtain v where v: "Block_validate E now block = Inr v" by blast
  with assms show ?thesis
    by (auto simp: add_block_def block_accepted_def py_nth_last)
qed

lemma add_block_accepts:
  assumes "bc_chain bc \<noteq> []" and "0 < difficulty_adjustment_interval bc"
    and "block_accepted E now bc block"
  shows "\<exists>bc'. add_block E now bc block = Inr (bc', True)
           \<and> adjust_difficulty (bc\<lparr>bc_chain := bc_chain bc @ [block],
                   utxo_set := update_utxo_set (utxo_set bc) block\<rparr>) = Inr bc'
           \<and> bc_chain bc' = bc_chain bc @ [block]
           \<and> utxo_set bc' = update_utxo_set (utxo_set bc) block
           \<and> difficulty_adjustment_interval bc' = difficulty_adjustment_interval bc"
proof -
  let ?bc2 = "bc\<lparr>bc_chain := bc_chain bc @ [block],
                   utxo_set := update_utxo_set (utxo_set bc) block\<rparr>"
  from assms(2) have "0 < difficulty_adjustment_interval ?bc2" by simp
  from adjust_difficulty_keeps [OF this] obtain bc'
    where bc': "adjust_difficulty ?bc2 = Inr bc'" "bc_chain bc' = bc_chain ?bc2"
      "utxo_set bc' = utxo_set ?bc2"
      "difficulty_adjustment_interval bc' = difficulty_adjustment_interval ?bc2"
    by blast
  from assms(1,3) bc'(1) have "add_block E now bc block = Inr (bc', True)"
    by (simp add: add_block_def block_accepted_def py_nth_last Let_def)
  with bc' show ?thesis by simp
qed

definition chain_linked :: "Block list \<Rightarrow> bool" where
  "chain_linked chain =
     (\<forall>i. 1 \<le> i \<and> i < length chain \<longrightarrow>
        previous_hash (chain ! i) = hash (chain ! (i - 1)) \<and> index (chain ! i) = int i)"

lemma chain_linked_snoc:
  assumes "chain_linked chain" "chain \<noteq> []"
    and "previous_hash block = hash (last chain)" "index block = int (length chain)"
  shows "chain_linked (chain @ [block])"
  unfolding chain_linked_def
proof (intro allI impI)
  fix i assume i: "1 \<le> i \<and> i < length (chain @ [block])"
  show "previous_hash ((chain @ [block]) ! i) = hash ((chain @ [block]) ! (i - 1))
        \<and> index ((chain @ [block]) ! i) = int i"
  proof (cases "i < length chain")
    case True
    then have "i - 1 < length chain" by simp
    with True i assms(1) show ?thesis
      by (simp add: chain_linked_def nth_append)
  next
    case False
    with i have "i = length chain" by simp
    with assms(2-4) show ?thesis
      by (simp add: nth_append last_conv_nth)
  qed
qed

definition chain_invariant :: "Blockchain \<Rightarrow> bool" where
  "chain_invariant bc =
     (bc_chain bc \<noteq> [] \<and> 0 < difficulty_adjustment_interval bc \<and> chain_linked (bc_chain bc))"

lemma add_block_invariant:
  assumes "chain_invariant bc"
  shows "\<exists>bc' r. add_block E now bc block = Inr (bc', r) \<and> chain_invariant bc'"
proof (cases "block_accepted E now bc block")
  case False
  with assms show ?thesis
    by (auto simp: chain_invariant_def add_block_rejects)
next
  case True
  from assms have ne: "bc_chain bc \<noteq> []" and pos: "0 < difficulty_adjustment_interval bc"
    and linked: "chain_linked (bc_chain bc)"
    by (simp_all add: chain_invariant_def)
  from add_block_accepts [OF ne pos True] obtain bc'
    where bc': "add_block E now bc block = Inr (bc', True)"
      "bc_chain bc' = bc_chain bc @ [block]"
      "difficulty_adjustment_interval bc' = difficulty_adjustment_interval bc"
    by blast
  from True have "previous_hash block = hash (last (bc_chain bc))"
    "index block = int (length (bc_chain bc))"
    by (simp_all add: block_accepted_def)
  with linked ne have "chain_linked (bc_chain bc @ [block])"
    by (intro chain_linked_snoc)
  with bc' pos have "chain_invariant bc'"
    by (simp add: chain_invariant_def)
  with bc' show ?thesis by blast
qed

lemma add_blocks_invariant:
  "chain_invariant bc \<Longrightarrow> \<exists>bc'. add_blocks E bc calls = Inr bc' \<and> chain_invariant bc'"
proof (induction calls arbitrary: bc)
  case Nil
  then show ?case by simp
next
  case (Cons c calls)
  obtain now block where c: "c = (now, block)" by (cases c)
  from add_block_invariant [OF Cons.prems, of E now block] obtain bc1 r
    where bc1: "add_block E now bc block = Inr (bc1, r)" "chain_invariant bc1"
    by blast
  from Cons.IH [OF bc1(2)] obtain bc' where "add_blocks E bc1 calls = Inr bc'"
    "chain_invariant bc'"
    by blast
  with bc1 c show ?case by simp
qed

lemma Blockchain_init_invariant:
  "\<exists>bc0 genesis. Blockchain_init E now now' d target = Inr bc0
     \<and> create_genesis_block E now now' = Inr genesis
     \<and> bc_chain bc0 = [genesis] \<and> chain_invariant bc0
     \<and> utxo_set bc0 = update_utxo_set UTXOSet_init genesis"
proof -
  from calculate_merkle_root_total obtain r
    where "calculate_merkle_root E [genesis_transaction] = Inr r" by blast
  then obtain genesis where "create_genesis_block E now now' = Inr genesis"
    by (simp add: create_genesis_block_def Block_init_def Let_def)
  then show ?thesis
    by (simp add: Blockchain_init_def chain_invariant_def chain_linked_def)
qed

text \<open>
  C10.  The constructor never raises and no run of \<open>add_block\<close> calls does, whatever
  the blocks and the readings of the clock; in the chain they leave, every block at a
  position \<open>i \<ge> 1\<close> has the hash of the block before it as its \<open>previous_hash\<close> and \<open>i\<close> as
  its \<open>index\<close>; and on that chain \<open>add_block\<close> returns \<open>False\<close> and leaves the whole
  state as it is for every block whose \<open>previous_hash\<close> is not the hash of the last block
  or whose \<open>index\<close> is not the length of the chain.
\<close>

theorem chain_hash_linked:
  "\<exists>bc0 bc. Blockchain_init E now now' d target = Inr bc0
     \<and> add_blocks E bc0 calls = Inr bc
     \<and> (\<forall>i. 1 \<le> i \<and> i < length (bc_chain bc) \<longrightarrow>
           previous_hash (bc_chain bc ! i) = hash (bc_chain bc ! (i - 1))
           \<and> index (bc_chain bc ! i) = int i)
     \<and> (\<forall>t block. previous_hash block \<noteq> hash (last (bc_chain bc))
                     \<or> index block \<noteq> int (length (bc_chain bc))
           \<longrightarrow> add_block E t bc block = Inr (bc, False))"
proof -
  from Blockchain_init_invariant obtain bc0
    where bc0: "Blockchain_init E now now' d target = Inr bc0" "chain_invariant bc0"
    by blast
  from add_blocks_invariant [OF bc0(2)] obtain bc
    where bc: "add_blocks E bc0 calls = Inr bc" "chain_invariant bc"
    by blast
  from bc(2) have linked: "\<forall>i. 1 \<le> i \<and> i < length (bc_chain bc) \<longrightarrow>
           previous_hash (bc_chain bc ! i) = hash (bc_chain bc ! (i - 1))
           \<and> index (bc_chain bc ! i) = int i"
    by (simp add: chain_invariant_def chain_linked_def)
  have "add_block E t bc block = Inr (bc, False)"
    if "previous_hash block \<noteq> hash (last (bc_chain bc))
        \<or> index block \<noteq> int (length (bc_chain bc))" for t block
  proof -
    from that have "\<not> block_accepted E t bc block"
      by (auto simp: block_accepted_def)
    with bc(2) show ?thesis
      by (simp add: chain_invariant_def add_block_rejects)
  qed
  with bc0 bc linked show ?thesis by blast
qed

subsection \<open>The sum of the unspent amounts\<close>
















subsection \<open>Runs of accepted blocks\<close>





lemma coinbase_is_built:
  "get_inputs (create_coinbase_transaction E now bc miner) = []
   \<and> output_total (create_coinbase_transaction E now bc miner)
       = block_reward (length (bc_chain bc))"
  by (simp add: create_coinbase_transaction_def get_inputs_def get_outputs_def
        output_total_def)







subsection \<open>The concrete inputs are states of the code\<close>

lemma hex_zero_bytes: "hex (replicate n 0) = replicate (2 * n) (CHR ''0'')"
  by (induction n) (simp_all add: hex_def hex_byte_def hex_digit_def)

lemma hex_zeros32: "hex (replicate 32 0) = zeros64"
  by (simp add: hex_zero_bytes zeros64_def)

lemma little_endian_zeros: "little_endian_to_int (replicate n 0) = 0"
proof -
  have "foldl (\<lambda>result (i, b). result OR push_bit (i * 8) (uint b)) 0
          (enumerate k (replicate n (0::byte))) = 0" for k
    by (induction n arbitrary: k) simp_all
  then show ?thesis by (simp add: little_endian_to_int_def)
qed

lemma int_to_little_endian_zero: "int_to_little_endian 0 n = replicate n 0"
  by (simp add: int_to_little_endian_def map_replicate_const)

lemma test_hash: "BlockHeader_hash test_ext h = zeros64"
proof -
  have "int_to_little_endian 0 8 @ replicate 24 0 = (replicate 32 0 :: byte list)"
    by (simp add: int_to_little_endian_zero flip: replicate_add)
  then show ?thesis
    by (simp add: BlockHeader_hash_def test_ext_def Let_def little_endian_zeros
          bit_rotate_left_def hex_zeros32)
qed

lemma test_hash_transaction: "hash_transaction test_ext tx = zeros64"
  by (simp add: hash_transaction_def test_ext_def hex_zeros32)

lemma test_merkle_loop:
  "hs \<noteq> [] \<Longrightarrow> set hs \<subseteq> {zeros64} \<Longrightarrow> merkle_loop test_ext hs = Inr [zeros64]"
proof (induction "length hs" arbitrary: hs rule: less_induct)
  case less
  show ?case
  proof (cases "1 < length hs")
    case False
    with less.prems obtain r where "hs = [r]"
      by (cases hs) auto
    with less.prems show ?thesis by (simp add: merkle_loop_short)
  next
    case True
    from merkle_loop_step [OF True, of test_ext] obtain level
      where level: "merkle_loop test_ext hs = merkle_loop test_ext level"
        "length (duplicate_last hs) = 2 * length level"
        "\<forall>i<length level. level ! i = hex (sha256 test_ext (sha256 test_ext
            (encode (duplicate_last hs ! (2 * i) @ duplicate_last hs ! (2 * i + 1)))))"
      by blast
    have "length (duplicate_last hs) \<le> length hs + 1" "length hs \<le> length (duplicate_last hs)"
      by (simp_all add: duplicate_last_def)
    with level True have "length level < length hs" "level \<noteq> []"
      by auto
    moreover have "set level \<subseteq> {zeros64}"
      using level(3) by (auto simp: in_set_conv_nth test_ext_def hex_zeros32)
    ultimately have "merkle_loop test_ext level = Inr [zeros64]"
      by (rule less.hyps)
    with level show ?thesis by simp
  qed
qed

lemma test_merkle_root: "calculate_merkle_root test_ext txs = Inr zeros64"
proof (cases "txs = []")
  case True
  then show ?thesis
    by (simp add: calculate_merkle_root_def test_ext_def hex_zero_bytes zeros64_def)
next
  case False
  then have "merkle_loop test_ext (map (hash_transaction test_ext) txs) = Inr [zeros64]"
    by (intro test_merkle_loop) (auto simp: test_hash_transaction)
  with False show ?thesis by (simp add: calculate_merkle_root_def)
qed

lemma test_genesis:
  "create_genesis_block test_ext 0 0 = Inr (example_block 0 [genesis_transaction])"
  by (simp add: create_genesis_block_def Block_init_def test_merkle_root test_hash
        example_block_def example_header_def zeros64_def)

lemma test_init: "Blockchain_init test_ext 0 0 4 1 = Inr state_0"
  by (simp add: Blockchain_init_def test_genesis state_0_def update_utxo_set_def
        example_block_def)

lemma test_validate:
  "txs \<noteq> [] \<Longrightarrow> Block_validate test_ext 0 (example_block height txs) = Inr True"
  by (simp add: Block_validate_def example_block_def test_hash test_merkle_root py_take_def
        zeros64_def)


lemma state_1_utxos:
  "utxos (utxo_set state_1)
     = (utxos (utxo_set state_0))
         ((''cb1'', 0) \<mapsto> \<lparr>u_address = ''A'', u_amount = 50,
            u_script_pubkey = ''OP_DUP OP_HASH160 A OP_EQUALVERIFY OP_CHECKSIG'',
            u_tx_id = ''cb1'', u_output_index = 0\<rparr>)"
  by (simp add: state_1_def apply_transaction_def coinbase_to_def get_inputs_def
        get_outputs_def add_utxo_def)

lemma example_block_sel:
  "index (example_block height txs) = height"
  "transactions (example_block height txs) = txs"
  "previous_hash (example_block height txs) = zeros64"
  "hash (example_block height txs) = zeros64"
  "timestamp (example_block height txs) = 0"
  by (simp_all add: example_block_def)

lemma state_0_sel:
  "bc_chain state_0 = [example_block 0 [genesis_transaction]]"
  "difficulty_adjustment_interval state_0 = 2016"
  "last_adjustment_block state_0 = 0"
  "mempool state_0 = Map.empty"
  "pending_transactions state_0 = []"
  by (simp_all add: state_0_def)

lemma test_add_block_1: "add_block test_ext 0 state_0 block_1 = Inr (state_1, True)"
  by (simp add: add_block_def block_1_def test_validate py_nth_def state_0_sel state_1_def
        example_block_sel update_utxo_set_def adjust_difficulty_def Let_def)

subsection \<open>Transactions that spend one outpoint twice\<close>

lemma state_1_cb1:
  "utxos (utxo_set state_1) (''cb1'', 0)
     = Some \<lparr>u_address = ''A'', u_amount = 50,
          u_script_pubkey = ''OP_DUP OP_HASH160 A OP_EQUALVERIFY OP_CHECKSIG'',
          u_tx_id = ''cb1'', u_output_index = 0\<rparr>"
  by (simp add: state_1_utxos)

lemma outpoints_payment:
  "outpoints (payment tid spent receiver paid) = filter (\<lambda>(t, i). t \<noteq> [] \<and> 0 \<le> i) spent"
  by (induction spent) (auto simp: outpoints_def payment_def get_inputs_def)

lemma validate_spends:
  "validate_transaction (utxo_set state_1) spend_1"
  "validate_transaction (utxo_set state_1) spend_2"
  "validate_transaction (utxo_set state_1) spend_twice"
  by (simp_all add: validate_transaction_def spend_1_def spend_2_def spend_twice_def
        payment_def get_inputs_def get_outputs_def get_utxo_def state_1_cb1)



text \<open>
  Against C3: \<open>spend_1\<close> and \<open>spend_2\<close> spend the same output of \<open>state_1\<close>; the first is
  admitted to the mempool, and then the second is admitted as well.
\<close>

theorem second_spend_not_rejected:
  "Blockchain_init test_ext 0 0 4 1 = Inr state_0
   \<and> add_block test_ext 0 state_0 block_1 = Inr (state_1, True)
   \<and> outpoints spend_1 = [(''cb1'', 0)] \<and> outpoints spend_2 = [(''cb1'', 0)]
   \<and> snd (add_transaction state_1 spend_1)
   \<and> snd (add_transaction (fst (add_transaction state_1 spend_1)) spend_2)"
proof -
  have ids: "tx_id spend_1 = ''t1''" "tx_id spend_2 = ''t2''"
    by (simp_all add: spend_1_def spend_2_def payment_def)
  have m: "mempool state_1 = Map.empty" "utxo_set (state_1\<lparr>mempool := m, pending_transactions := p\<rparr>) = utxo_set state_1" for m p
    by (simp_all add: state_1_def state_0_def)
  have "snd (add_transaction state_1 spend_1)"
    by (simp add: add_transaction_def validate_spends m)
  moreover have "snd (add_transaction (fst (add_transaction state_1 spend_1)) spend_2)"
    by (simp add: add_transaction_def validate_spends m ids)
  moreover have "outpoints spend_1 = [(''cb1'', 0)]" "outpoints spend_2 = [(''cb1'', 0)]"
    by (simp_all add: spend_1_def spend_2_def outpoints_payment)
  ultimately show ?thesis
    by (simp add: test_init test_add_block_1)
qed

theorem second_spend_admitted_witness:
  "add_transaction state_1 spend_1 = (fst (add_transaction state_1 spend_1), True)
   \<and> snd (add_transaction (fst (add_transaction state_1 spend_1)) spend_2)
   \<and> validate_transaction (utxo_set state_1) spend_2
   \<and> tx_id spend_2 \<noteq> tx_id spend_1
   \<and> tx_id spend_2 \<notin> dom (mempool state_1)
   \<and> mempool (fst (add_transaction (fst (add_transaction state_1 spend_1)) spend_2))
        (tx_id spend_1) = Some spend_1
   \<and> mempool (fst (add_transaction (fst (add_transaction state_1 spend_1)) spend_2))
        (tx_id spend_2) = Some spend_2"
proof -
  have ids: "tx_id spend_1 = ''t1''" "tx_id spend_2 = ''t2''"
    by (simp_all add: spend_1_def spend_2_def payment_def)
  have m: "mempool state_1 = Map.empty"
    by (simp add: state_1_def state_0_def)
  have first: "add_transaction state_1 spend_1 = (fst (add_transaction state_1 spend_1), True)"
    by (simp add: add_transaction_def validate_spends m)
  from second_spend_admitted [OF first, of spend_2] first
  show ?thesis by (simp add: validate_spends ids m)
qed

subsection \<open>A Merkle tree with three leaves\<close>


subsection \<open>Two blocks and a fee\<close>

lemma state_1_sel:
  "bc_chain state_1 = [example_block 0 [genesis_transaction], block_1]"
  "difficulty_adjustment_interval state_1 = 2016"
  "last_adjustment_block state_1 = 0"
  by (simp_all add: state_1_def state_0_def)










subsection \<open>A block offered twice\<close>

theorem chain_hash_linked_witness:
  "Blockchain_init test_ext 0 0 4 1 = Inr state_0
   \<and> add_blocks test_ext state_0 [(0, block_1)] = Inr state_1
   \<and> length (bc_chain state_1) = 2
   \<and> previous_hash (bc_chain state_1 ! 1) = hash (bc_chain state_1 ! 0)
   \<and> index (bc_chain state_1 ! 1) = 1
   \<and> index block_1 \<noteq> int (length (bc_chain state_1))
   \<and> add_block test_ext 0 state_1 block_1 = Inr (state_1, False)"
proof -
  have run: "add_blocks test_ext state_0 [(0, block_1)] = Inr state_1"
    by (simp add: test_add_block_1)
  from chain_hash_linked [of test_ext 0 0 4 1 "[(0, block_1)]"]
  obtain bc0 bc where a: "Blockchain_init test_ext 0 0 4 1 = Inr bc0"
    and b: "add_blocks test_ext bc0 [(0, block_1)] = Inr bc"
    and l: "\<forall>i. 1 \<le> i \<and> i < length (bc_chain bc) \<longrightarrow>
           previous_hash (bc_chain bc ! i) = hash (bc_chain bc ! (i - 1))
           \<and> index (bc_chain bc ! i) = int i"
    and r: "\<forall>t block. previous_hash block \<noteq> hash (last (bc_chain bc))
                     \<or> index block \<noteq> int (length (bc_chain bc))
           \<longrightarrow> add_block test_ext t bc block = Inr (bc, False)"
    by blast
  from a have e0: "bc0 = state_0"
    unfolding test_init by simp
  from b have "add_blocks test_ext state_0 [(0, block_1)] = Inr bc"
    unfolding e0 .
  with run [symmetric] have "(Inr state_1 :: py_error + Blockchain) = Inr bc"
    by (rule trans)
  then have "bc = state_1" by simp
  with l r have linked: "\<forall>i. 1 \<le> i \<and> i < length (bc_chain state_1) \<longrightarrow>
           previous_hash (bc_chain state_1 ! i) = hash (bc_chain state_1 ! (i - 1))
           \<and> index (bc_chain state_1 ! i) = int i"
    and rejects: "\<forall>t block. previous_hash block \<noteq> hash (last (bc_chain state_1))
                     \<or> index block \<noteq> int (length (bc_chain state_1))
           \<longrightarrow> add_block test_ext t state_1 block = Inr (state_1, False)"
    by simp_all
  have len: "length (bc_chain state_1) = 2" by (simp add: state_1_sel)
  have idx: "index block_1 \<noteq> int (length (bc_chain state_1))"
    by (simp add: len block_1_def example_block_sel)
  from linked len have "previous_hash (bc_chain state_1 ! 1) = hash (bc_chain state_1 ! (1 - 1))
           \<and> index (bc_chain state_1 ! 1) = int 1"
    by (metis le_refl one_less_numeral_iff semiring_norm(76))
  then have l1: "previous_hash (bc_chain state_1 ! 1) = hash (bc_chain state_1 ! 0)"
    and l2: "index (bc_chain state_1 ! 1) = 1"
    by simp_all
  from rejects idx have rej: "add_block test_ext 0 state_1 block_1 = Inr (state_1, False)"
    by blast
  show ?thesis
    by (intro conjI) (fact test_init run len l1 l2 idx rej)+
qed

end
